theory Spec2Isabelle
  imports Main
begin

section \<open>HdtDocument: the native document object behind the JavaScript boundary\<close>

text \<open>
  A model of \<^verbatim>\<open>src/lib/HdtDocument.cc\<close>. The file binds a read-only triple store (the HDT
  library) to JavaScript: \<^verbatim>\<open>createHdtDocument(filename, callback)\<close> opens a store on a
  worker thread, \<^verbatim>\<open>HdtDocument#_search(subject, predicate, object, callback)\<close> searches
  it on a worker thread, \<^verbatim>\<open>HdtDocument#close([callback])\<close> releases it and the accessor
  \<^verbatim>\<open>closed\<close> observes whether it is released.

  Everything the C++ does besides returning a value is explicit here: the native objects
  live in a store indexed by address, callback invocations and \<^verbatim>\<open>delete\<close>s are logged
  in the state, and an assertion failure, a null dereference or an exception that nothing
  catches is a \<open>fault\<close> value: the process does not survive it.
\<close>

subsection \<open>JavaScript values and native faults\<close>

type_synonym addr = nat

datatype jsval =
    Null
  | Undefined
  | Boolean bool
  | Str string
  | Function nat
  | Error string
  | Object "(string \<times> jsval) list"
  | Array "jsval list"
  | Wrapper addr

text \<open>
  \<open>Function n\<close> is the JavaScript function with identity \<open>n\<close>; \<open>Error m\<close> is
  \<^verbatim>\<open>Exception::Error(String::New(m))\<close>; \<open>Object kvs\<close> is a plain object with its
  properties in the order they were set; \<open>Wrapper a\<close> is the JavaScript object made by the
  \<^verbatim>\<open>HdtDocument\<close> constructor, wrapping the native object at address \<open>a\<close>.
\<close>

fun IsFunction :: "jsval \<Rightarrow> bool" where
  "IsFunction (Function n) = True"
| "IsFunction v = False"

datatype fault =
    AssertionFailed
  | NullPointer
  | DanglingPointer
  | NotCallable
  | UncaughtException string

subsection \<open>The store library\<close>

text \<open>
  The HDT library is not part of the file; it is a parameter of the model.
  \<^verbatim>\<open>HDTManager::mapIndexedHDT(path)\<close> returns a pointer (possibly null, as far as its type
  says) or signals failure by throwing a C string, the exception
  \<^verbatim>\<open>HdtDocument::Create\<close> catches. \<^verbatim>\<open>hdt->search(s, p, o)\<close> returns an iterator over
  the matching triples, here the finite list of what it will produce, or throws.
\<close>

record TripleString =
  getSubject :: string
  getPredicate :: string
  getObject :: string

datatype 'h open_outcome = Returned "'h option" | Thrown string

datatype search_outcome = Iterator "TripleString list" | SearchThrown string

record 'h hdt_library =
  mapIndexedHDT :: "string \<Rightarrow> 'h open_outcome"
  search :: "'h \<Rightarrow> string \<Rightarrow> string \<Rightarrow> string \<Rightarrow> search_outcome"

subsection \<open>Task arguments and the document\<close>

record 'h CreateArgs =
  filename :: string
  hdt :: "'h option"
  error :: string
  callback :: jsval

record SearchArgs =
  hdtDocument :: addr
  subject :: string
  predicate :: string
  object :: string
  callback :: jsval
  triples :: "TripleString list"

record 'h HdtDocument =
  hdt :: "'h option"

text \<open>
  The state of the process as far as the file touches it: the native \<^verbatim>\<open>HdtDocument\<close>
  objects by address (\<^verbatim>\<open>HdtDocument*\<close> is an index into \<open>docs\<close>), the character buffers
  of the live \<^verbatim>\<open>String::Utf8Value\<close> temporaries (\<^verbatim>\<open>char*\<close> is an index into \<open>bufs\<close>),
  the store objects that have been \<^verbatim>\<open>delete\<close>d, and the callback invocations made so far,
  each with its argument vector. What a callback does when it runs is the caller's code and
  is not modelled; neither is the collection of a document by the garbage collector, whose
  destructor calls \<^verbatim>\<open>Destroy\<close>.
\<close>

record 'h vm =
  docs :: "'h HdtDocument list"
  bufs :: "string list"
  deleted :: "'h list"
  calls :: "(jsval \<times> jsval list) list"

definition vm0 :: "'h vm" where
  "vm0 = \<lparr>docs = [], bufs = [], deleted = [], calls = []\<rparr>"

subsection \<open>V8 helpers\<close>

text \<open>
  \<^verbatim>\<open>String::Utf8Value(v)\<close> converts \<open>v\<close> to a string and holds its UTF-8 bytes in a
  buffer of its own; \<^verbatim>\<open>*\<close> yields the buffer, or null when the conversion failed. A
  string converts to itself; the conversion of any other value runs JavaScript and is the
  parameter \<open>ToString\<close>.
\<close>

definition Utf8Value :: "(jsval \<Rightarrow> string option) \<Rightarrow> jsval \<Rightarrow> 'h vm \<Rightarrow> addr option \<times> 'h vm" where
  "Utf8Value ToString v s =
     (case (case v of Str x \<Rightarrow> Some x | _ \<Rightarrow> ToString v) of
        None \<Rightarrow> (None, s)
      | Some x \<Rightarrow> (Some (length (bufs s)), s\<lparr>bufs := bufs s @ [x]\<rparr>))"

text \<open>
  \<^verbatim>\<open>std::string(const char*)\<close>: the characters of the buffer up to its first NUL are
  copied into storage the new string owns.
\<close>

definition c_string :: "string \<Rightarrow> string" where
  "c_string buf = takeWhile (\<lambda>c. c \<noteq> CHR 0x00) buf"

definition string_from :: "'h vm \<Rightarrow> addr option \<Rightarrow> fault + string" where
  "string_from s p =
     (case p of
        None \<Rightarrow> Inl NullPointer
      | Some a \<Rightarrow>
          if a < length (bufs s) then Inr (c_string (bufs s ! a))
          else Inl DanglingPointer)"

text \<open>\<^verbatim>\<open>f->Call(global, argc, argv)\<close>: the invocation is recorded.\<close>

definition Call :: "jsval \<Rightarrow> jsval list \<Rightarrow> 'h vm \<Rightarrow> fault + 'h vm" where
  "Call f argv s =
     (if IsFunction f then Inr (s\<lparr>calls := calls s @ [(f, argv)]\<rparr>) else Inl NotCallable)"

text \<open>
  \<^verbatim>\<open>ObjectWrap::Unwrap<HdtDocument>(obj)\<close> asserts that \<open>obj\<close> wraps a native object and
  returns its address.
\<close>

definition Unwrap :: "jsval \<Rightarrow> 'h vm \<Rightarrow> fault + addr" where
  "Unwrap obj s =
     (case obj of
        Wrapper a \<Rightarrow> if a < length (docs s) then Inr a else Inl AssertionFailed
      | _ \<Rightarrow> Inl AssertionFailed)"

text \<open>
  \<^verbatim>\<open>array->Set(i, v)\<close>: a JavaScript array grows when written past its end.
\<close>

definition array_Set :: "jsval list \<Rightarrow> nat \<Rightarrow> jsval \<Rightarrow> jsval list" where
  "array_Set xs i v =
     (if i < length xs then xs[i := v]
      else xs @ replicate (i - length xs) Undefined @ [v])"

subsection \<open>Opening a document\<close>

definition CreateArgs_ctor :: "'h vm \<Rightarrow> addr option \<Rightarrow> jsval \<Rightarrow> fault + 'h CreateArgs" where
  "CreateArgs_ctor s filename_ptr cb =
     (case string_from s filename_ptr of
        Inl f \<Rightarrow> Inl f
      | Inr fn \<Rightarrow>
          Inr \<lparr>filename = fn, CreateArgs.hdt = None, error = '''', CreateArgs.callback = cb\<rparr>)"

text \<open>
  \<^verbatim>\<open>CreateAsync\<close> returns \<^verbatim>\<open>undefined\<close> together with the request it handed to
  \<^verbatim>\<open>uv_queue_work\<close>. The \<^verbatim>\<open>Utf8Value\<close> temporary dies at the end of the statement that
  builds the request.
\<close>

definition CreateAsync ::
  "(jsval \<Rightarrow> string option) \<Rightarrow> jsval list \<Rightarrow> 'h vm \<Rightarrow> fault + (jsval \<times> 'h CreateArgs \<times> 'h vm)" where
  "CreateAsync ToString args s =
     (if length args \<noteq> 2 then Inl AssertionFailed
      else
        let (p, s1) = Utf8Value ToString (args ! 0) s in
        case CreateArgs_ctor s1 p (args ! 1) of
          Inl f \<Rightarrow> Inl f
        | Inr request \<Rightarrow>
            Inr (Undefined, request, s1\<lparr>bufs := take (length (bufs s)) (bufs s1)\<rparr>))"

definition Create :: "'h hdt_library \<Rightarrow> 'h CreateArgs \<Rightarrow> 'h CreateArgs" where
  "Create lib args =
     (case mapIndexedHDT lib (filename args) of
        Returned p \<Rightarrow> args\<lparr>CreateArgs.hdt := p\<rparr>
      | Thrown e \<Rightarrow> args\<lparr>error := e\<rparr>)"

definition HdtDocument_ctor :: "'h HdtDocument" where
  "HdtDocument_ctor = \<lparr>HdtDocument.hdt = None\<rparr>"

text \<open>
  \<^verbatim>\<open>HdtDocument::New\<close>, given whether it was called as a constructor: the new native
  object takes the next address and the JavaScript object wraps it.
\<close>

definition New :: "bool \<Rightarrow> 'h vm \<Rightarrow> fault + (jsval \<times> 'h vm)" where
  "New IsConstructCall s =
     (if \<not> IsConstructCall then Inl AssertionFailed
      else Inr (Wrapper (length (docs s)), s\<lparr>docs := docs s @ [HdtDocument_ctor]\<rparr>))"

definition CreateDone :: "'h CreateArgs \<Rightarrow> 'h vm \<Rightarrow> fault + 'h vm" where
  "CreateDone args s =
     (if CreateArgs.hdt args \<noteq> None then
        (case New True s of
           Inl f \<Rightarrow> Inl f
         | Inr (newDocument, s1) \<Rightarrow>
             (case Unwrap newDocument s1 of
                Inl f \<Rightarrow> Inl f
              | Inr d \<Rightarrow>
                  Call (CreateArgs.callback args) [Null, newDocument]
                    (s1\<lparr>docs := (docs s1)[d := (docs s1 ! d)\<lparr>HdtDocument.hdt := CreateArgs.hdt args\<rparr>]\<rparr>)))
      else Call (CreateArgs.callback args) [Error (error args), Undefined] s)"

text \<open>
  \<^verbatim>\<open>uv_queue_work(loop, request, Create, CreateDone)\<close> runs \<^verbatim>\<open>Create\<close> on a worker thread
  and then \<^verbatim>\<open>CreateDone\<close> on the loop thread; \<open>later\<close> is whatever the loop thread did to
  the state in between.
\<close>

definition createHdtDocument ::
  "'h hdt_library \<Rightarrow> (jsval \<Rightarrow> string option) \<Rightarrow> jsval list \<Rightarrow> ('h vm \<Rightarrow> 'h vm) \<Rightarrow> 'h vm \<Rightarrow> fault + 'h vm" where
  "createHdtDocument lib ToString args later s =
     (case CreateAsync ToString args s of
        Inl f \<Rightarrow> Inl f
      | Inr (_, request, s1) \<Rightarrow> CreateDone (Create lib request) (later s1))"

subsection \<open>Closing\<close>

definition Destroy :: "addr \<Rightarrow> 'h vm \<Rightarrow> 'h vm" where
  "Destroy this s =
     (case HdtDocument.hdt (docs s ! this) of
        Some h \<Rightarrow>
          s\<lparr>deleted := deleted s @ [h],
            docs := (docs s)[this := (docs s ! this)\<lparr>HdtDocument.hdt := None\<rparr>]\<rparr>
      | None \<Rightarrow> s)"

definition Close :: "jsval \<Rightarrow> jsval list \<Rightarrow> 'h vm \<Rightarrow> fault + (jsval \<times> 'h vm)" where
  "Close This args s =
     (case Unwrap This s of
        Inl f \<Rightarrow> Inl f
      | Inr doc \<Rightarrow>
          let s1 = Destroy doc s in
          if length args \<ge> 1 \<and> IsFunction (args ! 0) then
            (case Call (args ! 0) [Null] s1 of
               Inl f \<Rightarrow> Inl f
             | Inr s2 \<Rightarrow> Inr (Undefined, s2))
          else Inr (Undefined, s1))"

definition ClosedGetter :: "jsval \<Rightarrow> 'h vm \<Rightarrow> fault + (jsval \<times> 'h vm)" where
  "ClosedGetter This s =
     (case Unwrap This s of
        Inl f \<Rightarrow> Inl f
      | Inr doc \<Rightarrow> Inr (Boolean (HdtDocument.hdt (docs s ! doc) = None), s))"

subsection \<open>Searching\<close>

definition SearchArgs_ctor ::
  "'h vm \<Rightarrow> addr \<Rightarrow> addr option \<Rightarrow> addr option \<Rightarrow> addr option \<Rightarrow> jsval \<Rightarrow> fault + SearchArgs" where
  "SearchArgs_ctor s doc subject_ptr predicate_ptr object_ptr cb =
     (case string_from s subject_ptr of
        Inl f \<Rightarrow> Inl f
      | Inr sub \<Rightarrow>
          (case string_from s predicate_ptr of
             Inl f \<Rightarrow> Inl f
           | Inr pre \<Rightarrow>
               (case string_from s object_ptr of
                  Inl f \<Rightarrow> Inl f
                | Inr ob \<Rightarrow>
                    Inr \<lparr>hdtDocument = doc, subject = sub, predicate = pre, object = ob,
                         SearchArgs.callback = cb, triples = []\<rparr>)))"

definition SearchAsync ::
  "(jsval \<Rightarrow> string option) \<Rightarrow> jsval \<Rightarrow> jsval list \<Rightarrow> 'h vm \<Rightarrow> fault + (jsval \<times> SearchArgs \<times> 'h vm)" where
  "SearchAsync ToString This args s =
     (if length args \<noteq> 4 then Inl AssertionFailed
      else
        case Unwrap This s of
          Inl f \<Rightarrow> Inl f
        | Inr doc \<Rightarrow>
            let (p0, s1) = Utf8Value ToString (args ! 0) s;
                (p1, s2) = Utf8Value ToString (args ! 1) s1;
                (p2, s3) = Utf8Value ToString (args ! 2) s2
            in case SearchArgs_ctor s3 doc p0 p1 p2 (args ! 3) of
                 Inl f \<Rightarrow> Inl f
               | Inr request \<Rightarrow>
                   Inr (Undefined, request, s3\<lparr>bufs := take (length (bufs s)) (bufs s3)\<rparr>))"

text \<open>
  The loop of \<^verbatim>\<open>Search\<close>: while the iterator has a next triple, a copy of it is pushed on
  the back of the result vector.
\<close>

fun Search_loop :: "TripleString list \<Rightarrow> TripleString list \<Rightarrow> TripleString list" where
  "Search_loop [] result = result"
| "Search_loop (t # it) result = Search_loop it (result @ [t])"

text \<open>
  \<^verbatim>\<open>Search\<close> runs on a worker thread. It follows the request's document pointer and the
  document's store pointer as they are when it runs; it has no \<^verbatim>\<open>try\<close> block.
\<close>

definition Search :: "'h hdt_library \<Rightarrow> 'h vm \<Rightarrow> SearchArgs \<Rightarrow> fault + SearchArgs" where
  "Search lib s args =
     (case HdtDocument.hdt (docs s ! hdtDocument args) of
        None \<Rightarrow> Inl NullPointer
      | Some h \<Rightarrow>
          (case search lib h (subject args) (predicate args) (object args) of
             SearchThrown e \<Rightarrow> Inl (UncaughtException e)
           | Iterator it \<Rightarrow> Inr (args\<lparr>triples := Search_loop it (triples args)\<rparr>)))"

text \<open>
  The properties of a result record are made with \<^verbatim>\<open>String::New(x.c_str())\<close>, which reads
  the characters of \<open>x\<close> up to its first NUL.
\<close>

definition tripleObject :: "TripleString \<Rightarrow> jsval" where
  "tripleObject t =
     Object [(''subject'', Str (c_string (getSubject t))),
             (''predicate'', Str (c_string (getPredicate t))),
             (''object'', Str (c_string (getObject t)))]"

text \<open>
  The integer conversions of \<^verbatim>\<open>SearchDone\<close>. The size of the result vector is handed to
  \<^verbatim>\<open>Array::New(int)\<close>: it is reduced to 32 bits and read as a signed number, and a length
  that is not positive makes an empty array. The counter is handed to
  \<^verbatim>\<open>Set(uint32_t, value)\<close>: it is reduced modulo \<open>2 ^ 32\<close>. The counter itself is a
  \<^verbatim>\<open>long\<close>, which holds every number below \<open>2 ^ 31\<close>; it never exceeds the size of the
  vector.
\<close>

definition to_int :: "nat \<Rightarrow> int" where
  "to_int n = (let m = int (n mod 2 ^ 32) in if m < 2 ^ 31 then m else m - 2 ^ 32)"

definition to_uint32_t :: "nat \<Rightarrow> nat" where
  "to_uint32_t n = n mod 2 ^ 32"

definition Array_New :: "int \<Rightarrow> jsval list" where
  "Array_New len = replicate (if len > 0 then nat len else 0) Undefined"

text \<open>The loop of \<^verbatim>\<open>SearchDone\<close>, with its counter and the array it fills.\<close>

fun SearchDone_loop :: "TripleString list \<Rightarrow> nat \<Rightarrow> jsval list \<Rightarrow> jsval list" where
  "SearchDone_loop [] count arr = arr"
| "SearchDone_loop (t # it) count arr =
     SearchDone_loop it (count + 1) (array_Set arr (to_uint32_t count) (tripleObject t))"

definition SearchDone :: "SearchArgs \<Rightarrow> 'h vm \<Rightarrow> fault + 'h vm" where
  "SearchDone args s =
     (let arr = SearchDone_loop (triples args) 0 (Array_New (to_int (length (triples args))))
      in Call (SearchArgs.callback args) [Null, Array arr] s)"

text \<open>
  \<^verbatim>\<open>uv_queue_work(loop, request, Search, SearchDone)\<close>: \<open>before\<close> is what the loop thread
  did between the submission and the worker's run, \<open>later\<close> what it did between the
  worker's run and the completion.
\<close>

definition HdtDocument_search ::
  "'h hdt_library \<Rightarrow> (jsval \<Rightarrow> string option) \<Rightarrow> jsval \<Rightarrow> jsval list
     \<Rightarrow> ('h vm \<Rightarrow> 'h vm) \<Rightarrow> ('h vm \<Rightarrow> 'h vm) \<Rightarrow> 'h vm \<Rightarrow> fault + 'h vm" where
  "HdtDocument_search lib ToString This args before later s =
     (case SearchAsync ToString This args s of
        Inl f \<Rightarrow> Inl f
      | Inr (_, request, s1) \<Rightarrow>
          (case Search lib (before s1) request of
             Inl f \<Rightarrow> Inl f
           | Inr request' \<Rightarrow> SearchDone request' (later (before s1))))"

subsection \<open>The process: tasks in flight\<close>

text \<open>
  \<^verbatim>\<open>uv_queue_work\<close> keeps each request until its work function has run once on a worker
  thread and then its completion function has run once on the loop thread. A task records
  whether its work function has run. Tasks complete in any order. A work function runs as
  one step: a \<^verbatim>\<open>close\<close> that releases the store while \<^verbatim>\<open>Search\<close> is in the middle of
  reading it is outside the model.
\<close>

datatype 'h task = CreateTask bool "'h CreateArgs" | SearchTask bool SearchArgs

text \<open>
  What can happen next: JavaScript calls one of the functions the file exports (the
  constructor is reachable as the \<^verbatim>\<open>constructor\<close> property of any document), a worker
  thread runs the work function of the task in slot \<open>i\<close>, or the loop thread runs the
  completion function of the task in slot \<open>i\<close>.
\<close>

datatype event =
    JsCreateHdtDocument "jsval list"
  | JsNew bool
  | JsSearch jsval "jsval list"
  | JsClose jsval "jsval list"
  | JsClosed jsval
  | Work nat
  | Done nat

fun exec ::
  "'h hdt_library \<Rightarrow> (jsval \<Rightarrow> string option) \<Rightarrow> event \<Rightarrow> 'h vm \<times> 'h task list
     \<Rightarrow> fault + ('h vm \<times> 'h task list)" where
  "exec lib ToString (JsCreateHdtDocument args) (s, q) =
     (case CreateAsync ToString args s of
        Inl f \<Rightarrow> Inl f
      | Inr (_, request, s1) \<Rightarrow> Inr (s1, q @ [CreateTask False request]))"
| "exec lib ToString (JsNew c) (s, q) =
     (case New c s of Inl f \<Rightarrow> Inl f | Inr (_, s1) \<Rightarrow> Inr (s1, q))"
| "exec lib ToString (JsSearch This args) (s, q) =
     (case SearchAsync ToString This args s of
        Inl f \<Rightarrow> Inl f
      | Inr (_, request, s1) \<Rightarrow> Inr (s1, q @ [SearchTask False request]))"
| "exec lib ToString (JsClose This args) (s, q) =
     (case Close This args s of Inl f \<Rightarrow> Inl f | Inr (_, s1) \<Rightarrow> Inr (s1, q))"
| "exec lib ToString (JsClosed This) (s, q) =
     (case ClosedGetter This s of Inl f \<Rightarrow> Inl f | Inr (_, s1) \<Rightarrow> Inr (s1, q))"
| "exec lib ToString (Work i) (s, q) =
     (if i < length q then
        (case q ! i of
           CreateTask False request \<Rightarrow> Inr (s, q[i := CreateTask True (Create lib request)])
         | SearchTask False request \<Rightarrow>
             (case Search lib s request of
                Inl f \<Rightarrow> Inl f
              | Inr request' \<Rightarrow> Inr (s, q[i := SearchTask True request']))
         | _ \<Rightarrow> Inr (s, q))
      else Inr (s, q))"
| "exec lib ToString (Done i) (s, q) =
     (if i < length q then
        (case q ! i of
           CreateTask True request \<Rightarrow>
             (case CreateDone request s of
                Inl f \<Rightarrow> Inl f
              | Inr s1 \<Rightarrow> Inr (s1, take i q @ drop (Suc i) q))
         | SearchTask True request \<Rightarrow>
             (case SearchDone request s of
                Inl f \<Rightarrow> Inl f
              | Inr s1 \<Rightarrow> Inr (s1, take i q @ drop (Suc i) q))
         | _ \<Rightarrow> Inr (s, q))
      else Inr (s, q))"

text \<open>A run of the process stops at the first fault.\<close>

fun run ::
  "'h hdt_library \<Rightarrow> (jsval \<Rightarrow> string option) \<Rightarrow> event list \<Rightarrow> 'h vm \<times> 'h task list
     \<Rightarrow> fault + ('h vm \<times> 'h task list)" where
  "run lib ToString [] c = Inr c"
| "run lib ToString (e # es) c =
     (case exec lib ToString e c of Inl f \<Rightarrow> Inl f | Inr c' \<Rightarrow> run lib ToString es c')"

subsection \<open>Where a store reference may come from\<close>

text \<open>
  A store pointer is accounted for when it is null or a pointer that \<^verbatim>\<open>mapIndexedHDT\<close>
  returned. A configuration of the process is accounted for when the store pointer of every
  document and of every open request in flight is.
\<close>

definition from_open :: "'h hdt_library \<Rightarrow> 'h option \<Rightarrow> bool" where
  "from_open lib p \<longleftrightarrow> p = None \<or> Returned p \<in> range (mapIndexedHDT lib)"

definition task_ok :: "'h hdt_library \<Rightarrow> 'h task \<Rightarrow> bool" where
  "task_ok lib t = (case t of CreateTask w r \<Rightarrow> from_open lib (CreateArgs.hdt r) | SearchTask w r \<Rightarrow> True)"

definition attached_ok :: "'h hdt_library \<Rightarrow> 'h vm \<times> 'h task list \<Rightarrow> bool" where
  "attached_ok lib c \<longleftrightarrow>
     (\<forall>d \<in> set (docs (fst c)). from_open lib (HdtDocument.hdt d)) \<and> (\<forall>t \<in> set (snd c). task_ok lib t)"

subsection \<open>An example store\<close>

text \<open>
  A library with one file, \<^verbatim>\<open>test.hdt\<close>, holding the triples \<open>(a, b, c)\<close> and
  \<open>(a, b, d)\<close>; an empty pattern term matches anything, and a search for the subject
  \<^verbatim>\<open>boom\<close> fails inside the library.
\<close>

definition example_library :: "nat hdt_library" where
  "example_library =
     \<lparr>mapIndexedHDT = (\<lambda>path. if path = ''test.hdt'' then Returned (Some 7) else Thrown ''Could not open file''),
      search = (\<lambda>h s p ob.
         if s = ''boom'' then SearchThrown ''search failed''
         else Iterator (filter (\<lambda>t. (s = '''' \<or> getSubject t = s) \<and> (p = '''' \<or> getPredicate t = p)
                                    \<and> (ob = '''' \<or> getObject t = ob))
                 [\<lparr>getSubject = ''a'', getPredicate = ''b'', getObject = ''c''\<rparr>,
                  \<lparr>getSubject = ''a'', getPredicate = ''b'', getObject = ''d''\<rparr>]))\<rparr>"

section \<open>Properties\<close>

subsection \<open>Auxiliary facts\<close>

lemmas eval_defs =
  example_library_def vm0_def CreateAsync_def Utf8Value_def CreateArgs_ctor_def string_from_def
  c_string_def Create_def CreateDone_def New_def HdtDocument_ctor_def Unwrap_def Call_def
  Close_def Destroy_def ClosedGetter_def SearchAsync_def SearchArgs_ctor_def Search_def
  SearchDone_def array_Set_def Array_New_def to_int_def to_uint32_t_def tripleObject_def
  createHdtDocument_def HdtDocument_search_def

lemma Unwrap_Wrapper: "a < length (docs s) \<Longrightarrow> Unwrap (Wrapper a) s = Inr a"
  by (simp add: Unwrap_def)

lemma Unwrap_Inr: "Unwrap v s = Inr a \<Longrightarrow> v = Wrapper a \<and> a < length (docs s)"
  by (auto simp: Unwrap_def split: jsval.splits if_splits)

lemma Destroy_hdt: "a < length (docs s) \<Longrightarrow> HdtDocument.hdt (docs (Destroy a s) ! a) = None"
  by (simp add: Destroy_def split: option.splits)

lemma Destroy_length: "length (docs (Destroy a s)) = length (docs s)"
  by (simp add: Destroy_def split: option.splits)

lemma Destroy_closed: "HdtDocument.hdt (docs s ! a) = None \<Longrightarrow> Destroy a s = s"
  by (simp add: Destroy_def)

lemma Destroy_calls: "calls (Destroy a s) = calls s"
  by (simp add: Destroy_def split: option.splits)

lemma Destroy_deleted:
  "deleted (Destroy a s) = deleted s @ (case HdtDocument.hdt (docs s ! a) of Some h \<Rightarrow> [h] | None \<Rightarrow> [])"
  by (simp add: Destroy_def split: option.splits)

lemma Destroy_other:
  "b \<noteq> a \<Longrightarrow> docs (Destroy a s) ! b = docs s ! b"
  by (simp add: Destroy_def split: option.splits)

lemma Close_eq:
  "a < length (docs s) \<Longrightarrow>
   Close (Wrapper a) args s =
     Inr (Undefined,
          if 1 \<le> length args \<and> IsFunction (args ! 0)
          then (Destroy a s)\<lparr>calls := calls (Destroy a s) @ [(args ! 0, [Null])]\<rparr>
          else Destroy a s)"
  by (simp add: Close_def Unwrap_Wrapper Call_def Let_def)

lemma Utf8Value_Str:
  "Utf8Value ToString (Str x) s = (Some (length (bufs s)), s\<lparr>bufs := bufs s @ [x]\<rparr>)"
  by (simp add: Utf8Value_def)

lemma CreateAsync_Str:
  "CreateAsync ToString [Str path, cb] s =
     Inr (Undefined,
          \<lparr>filename = c_string path, CreateArgs.hdt = None, error = '''', CreateArgs.callback = cb\<rparr>,
          s)"
  by (simp add: CreateAsync_def Utf8Value_Str CreateArgs_ctor_def string_from_def)

lemma SearchAsync_Str:
  "a < length (docs s) \<Longrightarrow>
   SearchAsync ToString (Wrapper a) [Str sub, Str pre, Str ob, cb] s =
     Inr (Undefined,
          \<lparr>hdtDocument = a, subject = c_string sub, predicate = c_string pre,
           object = c_string ob, SearchArgs.callback = cb, triples = []\<rparr>,
          s)"
  by (simp add: SearchAsync_def Unwrap_def Utf8Value_Str SearchArgs_ctor_def string_from_def nth_append)

lemma Search_loop_append: "Search_loop it result = result @ it"
  by (induction it arbitrary: result) simp_all

lemma to_int_small: "n < 2 ^ 31 \<Longrightarrow> to_int n = int n"
  by (simp add: to_int_def)

lemma to_uint32_t_small: "n < 2 ^ 31 \<Longrightarrow> to_uint32_t n = n"
  by (simp add: to_uint32_t_def)

lemma Array_New_size: "n < 2 ^ 31 \<Longrightarrow> Array_New (to_int n) = replicate n Undefined"
  by (simp add: Array_New_def to_int_small)

lemma SearchDone_loop_fill:
  "length filled + length it < 2 ^ 31 \<Longrightarrow>
   SearchDone_loop it (length filled) (filled @ replicate (length it) Undefined)
     = filled @ map tripleObject it"
proof (induction it arbitrary: filled)
  case Nil
  show ?case by simp
next
  case (Cons t it)
  have index: "to_uint32_t (length filled) = length filled"
    using Cons.prems by (simp add: to_uint32_t_small)
  have "array_Set (filled @ replicate (length (t # it)) Undefined) (length filled) (tripleObject t)
          = (filled @ [tripleObject t]) @ replicate (length it) Undefined"
    by (simp add: array_Set_def list_update_append)
  moreover have "length filled + 1 = length (filled @ [tripleObject t])" by simp
  moreover have "length (filled @ [tripleObject t]) + length it < 2 ^ 31"
    using Cons.prems by simp
  ultimately show ?case using Cons.IH [of "filled @ [tripleObject t]"] index
    by (simp del: replicate.simps)
qed

lemma SearchDone_array:
  "length it < 2 ^ 31 \<Longrightarrow>
   SearchDone_loop it 0 (Array_New (to_int (length it))) = map tripleObject it"
  using SearchDone_loop_fill [of "[]" it] by (simp add: Array_New_size)

lemma SearchDone_eq:
  "IsFunction (SearchArgs.callback args) \<Longrightarrow> length (triples args) < 2 ^ 31 \<Longrightarrow>
   SearchDone args s =
     Inr (s\<lparr>calls := calls s @ [(SearchArgs.callback args, [Null, Array (map tripleObject (triples args))])]\<rparr>)"
  by (simp add: SearchDone_def SearchDone_array Call_def)

lemma Search_closed:
  "HdtDocument.hdt (docs s ! hdtDocument args) = None \<Longrightarrow> Search lib s args = Inl NullPointer"
  by (simp add: Search_def)

lemma Search_thrown:
  "HdtDocument.hdt (docs s ! hdtDocument args) = Some h \<Longrightarrow>
   search lib h (subject args) (predicate args) (object args) = SearchThrown e \<Longrightarrow>
   Search lib s args = Inl (UncaughtException e)"
  by (simp add: Search_def)

lemma Search_found:
  "HdtDocument.hdt (docs s ! hdtDocument args) = Some h \<Longrightarrow>
   search lib h (subject args) (predicate args) (object args) = Iterator it \<Longrightarrow>
   Search lib s args = Inr (args\<lparr>triples := triples args @ it\<rparr>)"
  by (simp add: Search_def Search_loop_append)

lemma Utf8Value_ext: "\<exists>p ext. Utf8Value ToString v s = (p, s\<lparr>bufs := bufs s @ ext\<rparr>)"
proof (cases "case v of Str x \<Rightarrow> Some x | _ \<Rightarrow> ToString v")
  case None
  then have "Utf8Value ToString v s = (None, s\<lparr>bufs := bufs s @ []\<rparr>)"
    by (simp add: Utf8Value_def)
  then show ?thesis by blast
next
  case (Some x)
  then have "Utf8Value ToString v s = (Some (length (bufs s)), s\<lparr>bufs := bufs s @ [x]\<rparr>)"
    by (simp add: Utf8Value_def)
  then show ?thesis by blast
qed

lemma CreateAsync_frame:
  assumes "CreateAsync ToString args s = Inr (v, r, s')"
  shows "s' = s \<and> CreateArgs.hdt r = None \<and> v = Undefined"
proof -
  obtain p ext where "Utf8Value ToString (args ! 0) s = (p, s\<lparr>bufs := bufs s @ ext\<rparr>)"
    using Utf8Value_ext by blast
  with assms show ?thesis
    by (auto simp: CreateAsync_def CreateArgs_ctor_def split: if_splits sum.splits)
qed

lemma SearchAsync_frame:
  assumes "SearchAsync ToString This args s = Inr (v, r, s')"
  shows "s' = s \<and> v = Undefined \<and> hdtDocument r < length (docs s)"
proof -
  obtain p0 e0 where u0: "Utf8Value ToString (args ! 0) s = (p0, s\<lparr>bufs := bufs s @ e0\<rparr>)"
    using Utf8Value_ext by blast
  obtain p1 e1 where u1: "Utf8Value ToString (args ! 1) (s\<lparr>bufs := bufs s @ e0\<rparr>)
      = (p1, s\<lparr>bufs := bufs s @ e0 @ e1\<rparr>)"
    using Utf8Value_ext [of ToString "args ! 1" "s\<lparr>bufs := bufs s @ e0\<rparr>"] by auto
  obtain p2 e2 where u2: "Utf8Value ToString (args ! 2) (s\<lparr>bufs := bufs s @ e0 @ e1\<rparr>)
      = (p2, s\<lparr>bufs := bufs s @ e0 @ e1 @ e2\<rparr>)"
    using Utf8Value_ext [of ToString "args ! 2" "s\<lparr>bufs := bufs s @ e0 @ e1\<rparr>"] by auto
  from assms u0 u1 u2 show ?thesis
    by (auto simp: SearchAsync_def SearchArgs_ctor_def split: if_splits sum.splits dest: Unwrap_Inr)
qed

lemma Call_frame:
  "Call f argv s = Inr s' \<Longrightarrow> docs s' = docs s \<and> deleted s' = deleted s \<and> bufs s' = bufs s"
  by (auto simp: Call_def split: if_splits)

lemma CreateDone_docs:
  "CreateDone r s = Inr s' \<Longrightarrow>
   docs s' = (if CreateArgs.hdt r \<noteq> None then docs s @ [\<lparr>HdtDocument.hdt = CreateArgs.hdt r\<rparr>] else docs s)"
  by (auto simp: CreateDone_def New_def Unwrap_def HdtDocument_ctor_def
      split: if_splits sum.splits dest!: Call_frame)

lemma SearchDone_docs: "SearchDone r s = Inr s' \<Longrightarrow> docs s' = docs s"
  by (auto simp: SearchDone_def Let_def dest: Call_frame)

lemma New_docs: "New c s = Inr (v, s') \<Longrightarrow> docs s' = docs s @ [\<lparr>HdtDocument.hdt = None\<rparr>]"
  by (auto simp: New_def HdtDocument_ctor_def split: if_splits)

lemma Close_docs:
  assumes "Close This args s = Inr (v, s')"
  shows "length (docs s') = length (docs s)
       \<and> (\<forall>b < length (docs s). HdtDocument.hdt (docs s' ! b) = None \<or> docs s' ! b = docs s ! b)"
proof -
  from assms obtain a where a: "Unwrap This s = Inr a"
    by (auto simp: Close_def split: sum.splits)
  then have lt: "a < length (docs s)" by (auto dest: Unwrap_Inr)
  have "docs s' = docs (Destroy a s)"
    using assms a by (auto simp: Close_def Let_def split: if_splits sum.splits dest: Call_frame)
  then show ?thesis using lt Destroy_hdt [OF lt] Destroy_other [of _ a s]
    by (metis Destroy_length)
qed

lemma ClosedGetter_frame: "ClosedGetter This s = Inr (v, s') \<Longrightarrow> s' = s"
  by (auto simp: ClosedGetter_def split: sum.splits)

lemma Create_from_open:
  assumes "from_open lib (CreateArgs.hdt r)"
  shows "from_open lib (CreateArgs.hdt (Create lib r))"
proof (cases "mapIndexedHDT lib (filename r)")
  case (Returned p)
  then have "Returned p \<in> range (mapIndexedHDT lib)" by (metis rangeI)
  with Returned show ?thesis by (simp add: Create_def from_open_def)
next
  case (Thrown e)
  with assms show ?thesis by (simp add: Create_def)
qed

lemma set_remove_nth: "set (take i q @ drop (Suc i) q) \<subseteq> set q"
  by (auto dest: in_set_takeD in_set_dropD)

lemma docs_ok_nth:
  "(\<forall>d \<in> set ds. P (HdtDocument.hdt d)) \<longleftrightarrow> (\<forall>a < length ds. P (HdtDocument.hdt (ds ! a)))"
  by (metis in_set_conv_nth)

lemma exec_attached_ok:
  assumes inv: "attached_ok lib c" and ex: "exec lib ToString ev c = Inr c'"
  shows "attached_ok lib c'"
proof -
  obtain s q where c: "c = (s, q)" by (cases c)
  have ds: "\<forall>d \<in> set (docs s). from_open lib (HdtDocument.hdt d)"
    and ts: "\<forall>t \<in> set q. task_ok lib t"
    using inv c by (simp_all add: attached_ok_def)
  show ?thesis
  proof (cases ev)
    case (JsCreateHdtDocument args)
    with ex c obtain v r s1 where r: "CreateAsync ToString args s = Inr (v, r, s1)"
      and c': "c' = (s1, q @ [CreateTask False r])"
      by (auto split: sum.splits)
    from CreateAsync_frame [OF r] have "s1 = s" "CreateArgs.hdt r = None" by simp_all
    then show ?thesis using ds ts c'
      by (simp add: attached_ok_def task_ok_def from_open_def)
  next
    case (JsNew k)
    with ex c obtain v s1 where r: "New k s = Inr (v, s1)" and c': "c' = (s1, q)"
      by (auto split: sum.splits)
    from New_docs [OF r] show ?thesis using ds ts c'
      by (simp add: attached_ok_def from_open_def)
  next
    case (JsSearch This args)
    with ex c obtain v r s1 where r: "SearchAsync ToString This args s = Inr (v, r, s1)"
      and c': "c' = (s1, q @ [SearchTask False r])"
      by (auto split: sum.splits)
    from SearchAsync_frame [OF r] have "s1 = s" by simp
    then show ?thesis using ds ts c'
      by (simp add: attached_ok_def task_ok_def)
  next
    case (JsClose This args)
    with ex c obtain v s1 where r: "Close This args s = Inr (v, s1)" and c': "c' = (s1, q)"
      by (auto split: sum.splits)
    from Close_docs [OF r] have len: "length (docs s1) = length (docs s)"
      and each: "\<forall>b < length (docs s). HdtDocument.hdt (docs s1 ! b) = None \<or> docs s1 ! b = docs s ! b"
      by simp_all
    have "\<forall>a < length (docs s1). from_open lib (HdtDocument.hdt (docs s1 ! a))"
    proof (intro allI impI)
      fix a assume a: "a < length (docs s1)"
      then have "from_open lib (HdtDocument.hdt (docs s ! a))"
        using ds len by (simp add: docs_ok_nth)
      moreover have "HdtDocument.hdt (docs s1 ! a) = None \<or> docs s1 ! a = docs s ! a"
        using each a len by simp
      ultimately show "from_open lib (HdtDocument.hdt (docs s1 ! a))"
        by (auto simp: from_open_def)
    qed
    then show ?thesis using ts c' by (simp add: attached_ok_def docs_ok_nth)
  next
    case (JsClosed This)
    with ex c obtain v s1 where r: "ClosedGetter This s = Inr (v, s1)" and c': "c' = (s1, q)"
      by (auto split: sum.splits)
    from ClosedGetter_frame [OF r] show ?thesis using inv c c' by simp
  next
    case (Work i)
    show ?thesis
    proof (cases "i < length q")
      case False
      with ex c Work show ?thesis using inv by simp
    next
      case True
      then have ti: "task_ok lib (q ! i)" using ts by simp
      show ?thesis
      proof (cases "q ! i")
        case (CreateTask w r)
        have "task_ok lib (CreateTask True (Create lib r))"
          using ti CreateTask by (simp add: task_ok_def Create_from_open)
        then have "\<forall>t \<in> set (q[i := CreateTask True (Create lib r)]). task_ok lib t"
          using ts by (auto dest: set_update_subset_insert [THEN subsetD])
        then show ?thesis using ex c Work True CreateTask ds inv
          by (cases w) (auto simp: attached_ok_def)
      next
        case (SearchTask w r)
        have "\<forall>t \<in> set (q[i := SearchTask True r']). task_ok lib t" for r'
          using ts by (auto simp: task_ok_def dest: set_update_subset_insert [THEN subsetD])
        then show ?thesis using ex c Work True SearchTask ds inv
          by (cases w) (auto simp: attached_ok_def split: sum.splits)
      qed
    qed
  next
    case (Done i)
    show ?thesis
    proof (cases "i < length q")
      case False
      with ex c Done show ?thesis using inv by simp
    next
      case True
      then have ti: "task_ok lib (q ! i)" using ts by simp
      have rest: "\<forall>t \<in> set (take i q @ drop (Suc i) q). task_ok lib t"
        using ts set_remove_nth [of i q] by blast
      show ?thesis
      proof (cases "q ! i")
        case (CreateTask w r)
        show ?thesis
        proof (cases w)
          case False
          then show ?thesis using ex c Done True CreateTask inv by simp
        next
          case w: True
          then obtain s1 where r: "CreateDone r s = Inr s1"
            and c': "c' = (s1, take i q @ drop (Suc i) q)"
            using ex c Done True CreateTask by (auto split: sum.splits)
          have "from_open lib (CreateArgs.hdt r)" using ti CreateTask by (simp add: task_ok_def)
          then have "\<forall>d \<in> set (docs s1). from_open lib (HdtDocument.hdt d)"
            using CreateDone_docs [OF r] ds by (auto split: if_splits)
          then show ?thesis using rest c' by (simp add: attached_ok_def)
        qed
      next
        case (SearchTask w r)
        show ?thesis
        proof (cases w)
          case False
          then show ?thesis using ex c Done True SearchTask inv by simp
        next
          case w: True
          then obtain s1 where r: "SearchDone r s = Inr s1"
            and c': "c' = (s1, take i q @ drop (Suc i) q)"
            using ex c Done True SearchTask by (auto split: sum.splits)
          then show ?thesis using SearchDone_docs [OF r] ds rest by (simp add: attached_ok_def)
        qed
      qed
    qed
  qed
qed

lemma run_attached_ok:
  "attached_ok lib c \<Longrightarrow> run lib ToString evs c = Inr c' \<Longrightarrow> attached_ok lib c'"
proof (induction evs arbitrary: c)
  case Nil
  then show ?case by simp
next
  case (Cons e evs)
  then show ?case by (auto split: sum.splits dest: exec_attached_ok)
qed

lemma exec_attaches:
  assumes ex: "exec lib ToString ev (s, q) = Inr (s', q')"
    and a: "a < length (docs s')" and h: "HdtDocument.hdt (docs s' ! a) = Some h"
  shows "(a < length (docs s) \<and> HdtDocument.hdt (docs s ! a) = Some h)
       \<or> (\<exists>i r. ev = Done i \<and> i < length q \<and> q ! i = CreateTask True r
                \<and> CreateArgs.hdt r = Some h \<and> a = length (docs s))"
proof (cases ev)
  case (JsCreateHdtDocument args)
  with ex obtain v r where "CreateAsync ToString args s = Inr (v, r, s')"
    by (auto split: sum.splits)
  from CreateAsync_frame [OF this] a h show ?thesis by simp
next
  case (JsNew k)
  with ex obtain v where "New k s = Inr (v, s')" by (auto split: sum.splits)
  from New_docs [OF this] a h show ?thesis
    by (cases "a < length (docs s)") (simp_all add: nth_append)
next
  case (JsSearch This args)
  with ex obtain v r where "SearchAsync ToString This args s = Inr (v, r, s')"
    by (auto split: sum.splits)
  from SearchAsync_frame [OF this] a h show ?thesis by simp
next
  case (JsClose This args)
  with ex obtain v where "Close This args s = Inr (v, s')" by (auto split: sum.splits)
  from Close_docs [OF this] a h show ?thesis by auto
next
  case (JsClosed This)
  with ex obtain v where "ClosedGetter This s = Inr (v, s')" by (auto split: sum.splits)
  from ClosedGetter_frame [OF this] a h show ?thesis by simp
next
  case (Work i)
  with ex have "s' = s"
    by (auto split: if_splits task.splits bool.splits sum.splits)
  with a h show ?thesis by simp
next
  case (Done i)
  show ?thesis
  proof (cases "i < length q")
    case False
    with ex Done a h show ?thesis by simp
  next
    case True
    show ?thesis
    proof (cases "q ! i")
      case (CreateTask w r)
      show ?thesis
      proof (cases w)
        case False
        with ex Done True CreateTask a h show ?thesis by simp
      next
        case w: True
        then have r: "CreateDone r s = Inr s'"
          using ex Done True CreateTask by (auto split: sum.splits)
        show ?thesis
        proof (cases "a < length (docs s)")
          case True
          then show ?thesis using CreateDone_docs [OF r] h by (simp add: nth_append split: if_splits)
        next
          case False
          then have "a = length (docs s) \<and> CreateArgs.hdt r = Some h"
            using CreateDone_docs [OF r] a h by (auto simp: nth_append split: if_splits)
          then show ?thesis using Done True CreateTask w by simp
        qed
      qed
    next
      case (SearchTask w r)
      show ?thesis
      proof (cases w)
        case False
        with ex Done True SearchTask a h show ?thesis by simp
      next
        case w: True
        then have "SearchDone r s = Inr s'"
          using ex Done True SearchTask by (auto split: sum.splits)
        from SearchDone_docs [OF this] a h show ?thesis by simp
      qed
    qed
  qed
qed

lemma Close_closed:
  "a < length (docs s) \<Longrightarrow> HdtDocument.hdt (docs s ! a) = None \<Longrightarrow>
   Close (Wrapper a) args s =
     Inr (Undefined,
          if 1 \<le> length args \<and> IsFunction (args ! 0)
          then s\<lparr>calls := calls s @ [(args ! 0, [Null])]\<rparr> else s)"
  by (simp add: Close_def Unwrap_Wrapper Destroy_closed Call_def)

lemma run_Close_closed:
  "a < length (docs s) \<Longrightarrow> HdtDocument.hdt (docs s ! a) = None \<Longrightarrow>
   run lib ToString (map (JsClose (Wrapper a)) argss) (s, q) =
     Inr (s\<lparr>calls := calls s @
              concat (map (\<lambda>args. if 1 \<le> length args \<and> IsFunction (args ! 0)
                                   then [(args ! 0, [Null])] else []) argss)\<rparr>, q)"
proof (induction argss arbitrary: s)
  case Nil
  show ?case by simp
next
  case (Cons args argss)
  show ?case
  proof (cases "1 \<le> length args \<and> IsFunction (args ! 0)")
    case True
    let ?s1 = "s\<lparr>calls := calls s @ [(args ! 0, [Null])]\<rparr>"
    have "a < length (docs ?s1)" "HdtDocument.hdt (docs ?s1 ! a) = None"
      using Cons.prems by simp_all
    from Cons.IH [OF this] True Cons.prems show ?thesis
      by (simp add: Close_closed)
  next
    case False
    with Cons.IH [OF Cons.prems] Cons.prems show ?thesis
      by (auto simp: Close_closed)
  qed
qed

lemma HdtDocument_search_closed:
  assumes "a < length (docs s)" and "HdtDocument.hdt (docs (before s) ! a) = None"
  shows "HdtDocument_search lib ToString (Wrapper a) [Str sub, Str pre, Str ob, cb] before later s
           = Inl NullPointer"
  using assms by (simp add: HdtDocument_search_def SearchAsync_Str Search_closed)

lemma HdtDocument_search_thrown:
  assumes "a < length (docs s)" and "HdtDocument.hdt (docs (before s) ! a) = Some h"
    and "search lib h (c_string sub) (c_string pre) (c_string ob) = SearchThrown e"
  shows "HdtDocument_search lib ToString (Wrapper a) [Str sub, Str pre, Str ob, cb] before later s
           = Inl (UncaughtException e)"
  using assms by (simp add: HdtDocument_search_def SearchAsync_Str Search_thrown)

subsection \<open>Searching a closed document\<close>

text \<open>
  Claim C1 says that a search submitted on a closed document runs to completion and calls
  back once with no error and an empty list. \<^verbatim>\<open>Search\<close> does not test the store pointer
  before it calls \<^verbatim>\<open>hdt->search\<close>: on a document that was opened and closed, and on a
  document that never held a store, the worker dereferences a null pointer and no callback
  is invoked.
\<close>

theorem search_on_closed_handle_faults:
  "run example_library (\<lambda>v. None)
     [JsCreateHdtDocument [Str ''test.hdt'', Function 1], Work 0, Done 0,
      JsClose (Wrapper 0) [],
      JsSearch (Wrapper 0) [Str ''a'', Str ''b'', Str '''', Function 2], Work 0]
     (vm0, []) = Inl NullPointer
   \<and> HdtDocument_search example_library (\<lambda>v. None) (Wrapper 0)
        [Str ''a'', Str ''b'', Str '''', Function 2] id id
        \<lparr>docs = [\<lparr>HdtDocument.hdt = None\<rparr>], bufs = [], deleted = [7], calls = []\<rparr> = Inl NullPointer"
  by (simp add: eval_defs)

subsection \<open>A search that fails inside the library\<close>

text \<open>
  Claim C2 says that a failure raised by the store's search is caught in the worker phase
  and reported as \<open>(Error message, undefined)\<close>. \<^verbatim>\<open>Create\<close> has a \<^verbatim>\<open>try\<close> block and
  \<^verbatim>\<open>Search\<close> has none: the exception leaves the work function uncaught and no callback is
  invoked.
\<close>

theorem search_failure_escapes_worker:
  "run example_library (\<lambda>v. None)
     [JsCreateHdtDocument [Str ''test.hdt'', Function 1], Work 0, Done 0,
      JsSearch (Wrapper 0) [Str ''boom'', Str '''', Str '''', Function 2], Work 0]
     (vm0, []) = Inl (UncaughtException ''search failed'')
   \<and> HdtDocument_search example_library (\<lambda>v. None) (Wrapper 0)
        [Str ''boom'', Str '''', Str '''', Function 2] id id
        \<lparr>docs = [\<lparr>HdtDocument.hdt = Some 7\<rparr>], bufs = [], deleted = [], calls = []\<rparr>
       = Inl (UncaughtException ''search failed'')"
  by (simp add: eval_defs)

subsection \<open>Opening\<close>

text \<open>
  Claim C3: an open request with a path string and a callback function invokes the callback
  exactly once. When the library returns a store, the arguments are \<open>null\<close> and a new
  document that holds that store; when the library throws (or returns null), the arguments
  are an \<open>Error\<close> with the library's message and \<open>undefined\<close>, and no document is made.
\<close>

theorem createHdtDocument_calls_back_once:
  "createHdtDocument lib ToString [Str path, Function f] later s =
     (case mapIndexedHDT lib (c_string path) of
        Returned (Some h) \<Rightarrow>
          Inr ((later s)
                 \<lparr>docs := docs (later s) @ [\<lparr>HdtDocument.hdt = Some h\<rparr>],
                  calls := calls (later s) @ [(Function f, [Null, Wrapper (length (docs (later s)))])]\<rparr>)
      | Returned None \<Rightarrow>
          Inr ((later s)\<lparr>calls := calls (later s) @ [(Function f, [Error '''', Undefined])]\<rparr>)
      | Thrown m \<Rightarrow>
          Inr ((later s)\<lparr>calls := calls (later s) @ [(Function f, [Error m, Undefined])]\<rparr>))"
  by (simp add: createHdtDocument_def CreateAsync_Str Create_def CreateDone_def New_def
        Unwrap_def Call_def HdtDocument_ctor_def split: open_outcome.splits option.splits)

theorem createHdtDocument_calls_back_once_witness:
  "createHdtDocument example_library (\<lambda>v. None) [Str ''test.hdt'', Function 1] id vm0
     = Inr \<lparr>docs = [\<lparr>HdtDocument.hdt = Some 7\<rparr>], bufs = [], deleted = [],
            calls = [(Function 1, [Null, Wrapper 0])]\<rparr>
   \<and> createHdtDocument example_library (\<lambda>v. None) [Str ''/nonexistent/path'', Function 1] id vm0
     = Inr \<lparr>docs = [], bufs = [], deleted = [],
            calls = [(Function 1, [Error ''Could not open file'', Undefined])]\<rparr>"
  using createHdtDocument_calls_back_once [of example_library "\<lambda>v. None" "''test.hdt''" 1 id vm0]
        createHdtDocument_calls_back_once [of example_library "\<lambda>v. None" "''/nonexistent/path''" 1 id vm0]
  by (simp add: example_library_def vm0_def c_string_def)

subsection \<open>Marshalling the result of a search\<close>

text \<open>
  Claim C4: when the document holds a store as the worker runs and the library's search
  returns an iterator, the callback receives \<open>null\<close> and an array with one
  \<open>{subject, predicate, object}\<close> record per triple the iterator produced, in the order
  in which it produced them. The three properties of a record are the subject, the
  predicate and the object of its triple, each as the C string \<^verbatim>\<open>String::New\<close> reads:
  the characters before the first NUL. The number of triples is one that the array length
  of \<^verbatim>\<open>Array::New(int)\<close> can express.
\<close>

theorem search_marshals_in_encounter_order:
  assumes "a < length (docs s)"
    and "HdtDocument.hdt (docs (before s) ! a) = Some h"
    and "search lib h (c_string sub) (c_string pre) (c_string ob) = Iterator it"
    and "length it < 2 ^ 31"
  shows "HdtDocument_search lib ToString (Wrapper a) [Str sub, Str pre, Str ob, Function f] before later s =
           Inr ((later (before s))
                  \<lparr>calls := calls (later (before s)) @
                     [(Function f,
                       [Null,
                        Array (map (\<lambda>t. Object
                                 [(''subject'', Str (takeWhile (\<lambda>c. c \<noteq> CHR 0x00) (getSubject t))),
                                  (''predicate'', Str (takeWhile (\<lambda>c. c \<noteq> CHR 0x00) (getPredicate t))),
                                  (''object'', Str (takeWhile (\<lambda>c. c \<noteq> CHR 0x00) (getObject t)))])
                               it)])]\<rparr>)"
proof -
  have records: "map tripleObject it =
      map (\<lambda>t. Object
             [(''subject'', Str (takeWhile (\<lambda>c. c \<noteq> CHR 0x00) (getSubject t))),
              (''predicate'', Str (takeWhile (\<lambda>c. c \<noteq> CHR 0x00) (getPredicate t))),
              (''object'', Str (takeWhile (\<lambda>c. c \<noteq> CHR 0x00) (getObject t)))]) it"
    by (simp add: tripleObject_def c_string_def)
  have "HdtDocument_search lib ToString (Wrapper a) [Str sub, Str pre, Str ob, Function f] before later s =
           Inr ((later (before s))
                  \<lparr>calls := calls (later (before s)) @ [(Function f, [Null, Array (map tripleObject it)])]\<rparr>)"
    using assms
    by (simp add: HdtDocument_search_def SearchAsync_Str Search_found SearchDone_eq)
  then show ?thesis by (simp only: records)
qed

theorem search_marshals_in_encounter_order_witness:
  "HdtDocument_search
     \<lparr>mapIndexedHDT = (\<lambda>path. Returned (Some (7::nat))),
      search = (\<lambda>h x y z. Iterator
        [\<lparr>getSubject = ''http://example.org/alice'', getPredicate = ''http://xmlns.com/foaf/0.1/knows'',
          getObject = ''http://example.org/bob''\<rparr>,
         \<lparr>getSubject = ''http://example.org/alice'', getPredicate = ''http://xmlns.com/foaf/0.1/name'',
          getObject = [CHR ''A'', CHR ''l'', CHR 0x00, CHR ''x'']\<rparr>,
         \<lparr>getSubject = ''http://example.org/alice'', getPredicate = ''http://xmlns.com/foaf/0.1/age'',
          getObject = ''42''\<rparr>])\<rparr>
     (\<lambda>v. None) (Wrapper 0)
     [Str ''http://example.org/alice'', Str '''', Str '''', Function 2] id id
     \<lparr>docs = [\<lparr>HdtDocument.hdt = Some 7\<rparr>], bufs = [], deleted = [], calls = []\<rparr>
   = Inr \<lparr>docs = [\<lparr>HdtDocument.hdt = Some 7\<rparr>], bufs = [], deleted = [],
          calls = [(Function 2,
                    [Null,
                     Array [Object [(''subject'', Str ''http://example.org/alice''),
                                    (''predicate'', Str ''http://xmlns.com/foaf/0.1/knows''),
                                    (''object'', Str ''http://example.org/bob'')],
                            Object [(''subject'', Str ''http://example.org/alice''),
                                    (''predicate'', Str ''http://xmlns.com/foaf/0.1/name''),
                                    (''object'', Str ''Al'')],
                            Object [(''subject'', Str ''http://example.org/alice''),
                                    (''predicate'', Str ''http://xmlns.com/foaf/0.1/age''),
                                    (''object'', Str ''42'')]]])]\<rparr>"
proof -
  let ?it = "[\<lparr>getSubject = ''http://example.org/alice'', getPredicate = ''http://xmlns.com/foaf/0.1/knows'',
          getObject = ''http://example.org/bob''\<rparr>,
         \<lparr>getSubject = ''http://example.org/alice'', getPredicate = ''http://xmlns.com/foaf/0.1/name'',
          getObject = [CHR ''A'', CHR ''l'', CHR 0x00, CHR ''x'']\<rparr>,
         \<lparr>getSubject = ''http://example.org/alice'', getPredicate = ''http://xmlns.com/foaf/0.1/age'',
          getObject = ''42''\<rparr>]"
  let ?lib = "\<lparr>mapIndexedHDT = (\<lambda>path. Returned (Some (7::nat))), search = (\<lambda>h x y z. Iterator ?it)\<rparr>"
  let ?s = "\<lparr>docs = [\<lparr>HdtDocument.hdt = Some (7::nat)\<rparr>], bufs = [], deleted = [], calls = []\<rparr>"
  have doc: "0 < length (docs ?s)" by simp
  have held: "HdtDocument.hdt (docs (id ?s) ! 0) = Some 7" by simp
  have found: "search ?lib 7 (c_string ''http://example.org/alice'') (c_string '''') (c_string '''') = Iterator ?it"
    by simp
  have few: "length ?it < 2 ^ 31" by simp
  from search_marshals_in_encounter_order
    [where a = 0 and s = "?s" and before = id and h = 7 and lib = "?lib"
       and sub = "''http://example.org/alice''" and pre = "''''" and ob = "''''" and it = "?it"
       and ToString = "\<lambda>v. None" and f = 2 and later = id]
    doc held found few
  show ?thesis by simp
qed

subsection \<open>Closing\<close>

text \<open>
  Claim C5: closing is idempotent and one-way. \<^verbatim>\<open>Destroy\<close> after \<^verbatim>\<open>Destroy\<close> changes
  nothing; after a first \<^verbatim>\<open>close\<close> the document holds no store, and any number of
  further calls of \<^verbatim>\<open>close\<close> on it succeed and leave the documents, the deleted stores
  and the buffers as the first call left them: all they add is the invocation, with a null
  error, of each callback they were given.
\<close>

theorem Close_idempotent:
  assumes "Close (Wrapper a) args1 s = Inr (v1, s1)"
  shows "Destroy a (Destroy a s) = Destroy a s
       \<and> HdtDocument.hdt (docs s1 ! a) = None
       \<and> Close (Wrapper a) args2 s1 =
           Inr (Undefined,
                if 1 \<le> length args2 \<and> IsFunction (args2 ! 0)
                then s1\<lparr>calls := calls s1 @ [(args2 ! 0, [Null])]\<rparr> else s1)
       \<and> run lib ToString (map (JsClose (Wrapper a)) argss) (s1, q) =
           Inr (s1\<lparr>calls := calls s1 @
                    concat (map (\<lambda>args. if 1 \<le> length args \<and> IsFunction (args ! 0)
                                         then [(args ! 0, [Null])] else []) argss)\<rparr>, q)"
proof -
  have a: "a < length (docs s)"
    using assms by (auto simp: Close_def split: sum.splits dest: Unwrap_Inr)
  have closed: "HdtDocument.hdt (docs (Destroy a s) ! a) = None"
    using a by (rule Destroy_hdt)
  have s1: "a < length (docs s1)" "HdtDocument.hdt (docs s1 ! a) = None"
    using assms a closed by (auto simp: Close_eq Destroy_length split: if_splits)
  have twice: "Destroy a (Destroy a s) = Destroy a s"
    using closed by (rule Destroy_closed)
  have second: "Close (Wrapper a) args2 s1 =
           Inr (Undefined,
                if 1 \<le> length args2 \<and> IsFunction (args2 ! 0)
                then s1\<lparr>calls := calls s1 @ [(args2 ! 0, [Null])]\<rparr> else s1)"
    using s1 by (rule Close_closed)
  show ?thesis
    using twice s1(2) second run_Close_closed [OF s1] by blast
qed

theorem Close_idempotent_witness:
  "Close (Wrapper 0) [] \<lparr>docs = [\<lparr>HdtDocument.hdt = Some (7::nat)\<rparr>], bufs = [], deleted = [], calls = []\<rparr>
     = Inr (Undefined, \<lparr>docs = [\<lparr>HdtDocument.hdt = None\<rparr>], bufs = [], deleted = [7], calls = []\<rparr>)
   \<and> Close (Wrapper 0) [Function 3] \<lparr>docs = [\<lparr>HdtDocument.hdt = None\<rparr>], bufs = [], deleted = [7::nat], calls = []\<rparr>
     = Inr (Undefined, \<lparr>docs = [\<lparr>HdtDocument.hdt = None\<rparr>], bufs = [], deleted = [7],
                        calls = [(Function 3, [Null])]\<rparr>)
   \<and> run example_library (\<lambda>v. None) [JsClose (Wrapper 0) [Function 3], JsClose (Wrapper 0) []]
         (\<lparr>docs = [\<lparr>HdtDocument.hdt = None\<rparr>], bufs = [], deleted = [7], calls = []\<rparr>, [])
     = Inr (\<lparr>docs = [\<lparr>HdtDocument.hdt = None\<rparr>], bufs = [], deleted = [7],
             calls = [(Function 3, [Null])]\<rparr>, [])"
proof -
  let ?s = "\<lparr>docs = [\<lparr>HdtDocument.hdt = Some (7::nat)\<rparr>], bufs = [], deleted = [], calls = []\<rparr>"
  let ?s1 = "\<lparr>docs = [\<lparr>HdtDocument.hdt = None\<rparr>], bufs = [], deleted = [7::nat], calls = []\<rparr>"
  have first: "Close (Wrapper 0) [] ?s = Inr (Undefined, ?s1)"
    by (simp add: Close_def Unwrap_def Destroy_def)
  from Close_idempotent [OF first, of "[Function 3]" example_library "\<lambda>v. None"
      "[[Function 3], []]" "[]"] first
  show ?thesis by (simp del: run.simps)
qed

text \<open>
  Claim C6: \<^verbatim>\<open>close\<close> takes effect before it returns. It deletes the store the document
  holds, so that \<^verbatim>\<open>closed\<close> reads true in the state it returns, and it invokes its first
  argument with a null error exactly when that argument is present and is a function.
\<close>

theorem Close_synchronous:
  assumes "a < length (docs s)"
  shows "\<exists>s'. Close (Wrapper a) args s = Inr (Undefined, s')
           \<and> ClosedGetter (Wrapper a) s' = Inr (Boolean True, s')
           \<and> deleted s' = deleted s @ (case HdtDocument.hdt (docs s ! a) of Some h \<Rightarrow> [h] | None \<Rightarrow> [])
           \<and> calls s' = calls s @ (if 1 \<le> length args \<and> IsFunction (args ! 0) then [(args ! 0, [Null])] else [])"
  using assms
  by (simp add: Close_eq ClosedGetter_def Unwrap_Wrapper Destroy_length Destroy_hdt Destroy_calls Destroy_deleted)

theorem Close_synchronous_witness:
  "Close (Wrapper 0) [Function 3] \<lparr>docs = [\<lparr>HdtDocument.hdt = Some (7::nat)\<rparr>], bufs = [], deleted = [], calls = []\<rparr>
     = Inr (Undefined, \<lparr>docs = [\<lparr>HdtDocument.hdt = None\<rparr>], bufs = [], deleted = [7],
                        calls = [(Function 3, [Null])]\<rparr>)
   \<and> ClosedGetter (Wrapper 0) \<lparr>docs = [\<lparr>HdtDocument.hdt = None\<rparr>], bufs = [], deleted = [7::nat],
                                 calls = [(Function 3, [Null])]\<rparr>
     = Inr (Boolean True, \<lparr>docs = [\<lparr>HdtDocument.hdt = None\<rparr>], bufs = [], deleted = [7],
                           calls = [(Function 3, [Null])]\<rparr>)"
proof -
  let ?s = "\<lparr>docs = [\<lparr>HdtDocument.hdt = Some (7::nat)\<rparr>], bufs = [], deleted = [], calls = []\<rparr>"
  have "0 < length (docs ?s)" by simp
  from Close_synchronous [OF this, of "[Function 3]"]
  show ?thesis by (simp add: Close_def Unwrap_def Destroy_def Call_def ClosedGetter_def)
qed

subsection \<open>Observing whether a document is closed\<close>

text \<open>
  Claim C7: reading \<^verbatim>\<open>closed\<close> on a document returns true if and only if the document
  holds no store, and returns the state it was given.
\<close>

theorem ClosedGetter_observes:
  "a < length (docs s) \<Longrightarrow>
   ClosedGetter (Wrapper a) s = Inr (Boolean (HdtDocument.hdt (docs s ! a) = None), s)"
  by (simp add: ClosedGetter_def Unwrap_Wrapper)

theorem ClosedGetter_observes_witness:
  "ClosedGetter (Wrapper 0) \<lparr>docs = [\<lparr>HdtDocument.hdt = Some (7::nat)\<rparr>], bufs = [], deleted = [], calls = []\<rparr>
     = Inr (Boolean False, \<lparr>docs = [\<lparr>HdtDocument.hdt = Some 7\<rparr>], bufs = [], deleted = [], calls = []\<rparr>)
   \<and> ClosedGetter (Wrapper 0) \<lparr>docs = [\<lparr>HdtDocument.hdt = (None :: nat option)\<rparr>], bufs = [], deleted = [], calls = []\<rparr>
     = Inr (Boolean True, \<lparr>docs = [\<lparr>HdtDocument.hdt = None\<rparr>], bufs = [], deleted = [], calls = []\<rparr>)"
  using ClosedGetter_observes [of 0 "\<lparr>docs = [\<lparr>HdtDocument.hdt = Some (7::nat)\<rparr>], bufs = [], deleted = [], calls = []\<rparr>"]
        ClosedGetter_observes [of 0 "\<lparr>docs = [\<lparr>HdtDocument.hdt = (None :: nat option)\<rparr>], bufs = [], deleted = [], calls = []\<rparr>"]
  by simp

subsection \<open>Calls with the wrong number of arguments\<close>

text \<open>
  Claim C8: \<^verbatim>\<open>createHdtDocument\<close> with other than two arguments and \<^verbatim>\<open>_search\<close> with
  other than four fail their assertion at once: no request is queued, so nothing runs on a
  worker and no callback is invoked.
\<close>

theorem malformed_arity_asserts:
  "(length args \<noteq> 2 \<longrightarrow>
      CreateAsync ToString args s = Inl AssertionFailed
    \<and> createHdtDocument lib ToString args later s = Inl AssertionFailed)
 \<and> (length args \<noteq> 4 \<longrightarrow>
      SearchAsync ToString This args s = Inl AssertionFailed
    \<and> HdtDocument_search lib ToString This args before later s = Inl AssertionFailed)"
  by (simp add: CreateAsync_def createHdtDocument_def SearchAsync_def HdtDocument_search_def)

theorem malformed_arity_asserts_witness:
  "length [Str ''test.hdt''] \<noteq> 2
   \<and> CreateAsync (\<lambda>v. None) [Str ''test.hdt''] (vm0 :: nat vm) = Inl AssertionFailed
   \<and> createHdtDocument example_library (\<lambda>v. None) [Str ''test.hdt''] id vm0 = Inl AssertionFailed
   \<and> length [Str ''a'', Str ''b'', Function 2] \<noteq> 4
   \<and> SearchAsync (\<lambda>v. None) (Wrapper 0) [Str ''a'', Str ''b'', Function 2] (vm0 :: nat vm) = Inl AssertionFailed
   \<and> HdtDocument_search example_library (\<lambda>v. None) (Wrapper 0) [Str ''a'', Str ''b'', Function 2] id id vm0
       = Inl AssertionFailed"
  using malformed_arity_asserts [of "[Str ''test.hdt'']" "\<lambda>v. None" "vm0 :: nat vm" example_library id
          "Wrapper 0" id]
        malformed_arity_asserts [of "[Str ''a'', Str ''b'', Function 2]" "\<lambda>v. None" "vm0 :: nat vm"
          example_library id "Wrapper 0" id]
  by simp

subsection \<open>The strings of a request\<close>

text \<open>
  Claim C9: the submission functions copy their string arguments into the request before
  they return. The request of an open holds the C string of the path, and the request of a
  search holds the C strings of the three pattern terms; the state returned has no buffer
  that was not there before, so the temporaries the strings were read from are gone. The
  work functions leave these fields as they are, and their outcome does not depend on what
  the buffers hold afterwards: \<^verbatim>\<open>Search\<close> returns the same in a state whose buffers were
  replaced, and an open whose buffers were replaced between submission and completion ends
  as the open without the replacement does, the buffers themselves apart.
\<close>

theorem inputs_snapshotted:
  "CreateAsync ToString [Str path, cb] s =
     Inr (Undefined,
          \<lparr>filename = c_string path, CreateArgs.hdt = None, error = '''', CreateArgs.callback = cb\<rparr>,
          s)
 \<and> (a < length (docs s) \<longrightarrow>
      SearchAsync ToString (Wrapper a) [Str sub, Str pre, Str ob, cb] s =
        Inr (Undefined,
             \<lparr>hdtDocument = a, subject = c_string sub, predicate = c_string pre,
              object = c_string ob, SearchArgs.callback = cb, triples = []\<rparr>,
             s))
 \<and> filename (Create lib create_request) = filename create_request
 \<and> (Search lib s search_request = Inr search_request' \<longrightarrow>
      subject search_request' = subject search_request
    \<and> predicate search_request' = predicate search_request
    \<and> object search_request' = object search_request)
 \<and> Search lib (s\<lparr>bufs := m\<rparr>) search_request = Search lib s search_request
 \<and> createHdtDocument lib ToString [Str path, cb] (\<lambda>s. (later s)\<lparr>bufs := m\<rparr>) s =
     map_sum id (\<lambda>s. s\<lparr>bufs := m\<rparr>) (createHdtDocument lib ToString [Str path, cb] later s)"
proof -
  have keep_filename: "filename (Create lib create_request) = filename create_request"
    by (simp add: Create_def split: open_outcome.splits)
  have keep_pattern: "Search lib s search_request = Inr search_request' \<longrightarrow>
      subject search_request' = subject search_request
    \<and> predicate search_request' = predicate search_request
    \<and> object search_request' = object search_request"
    by (auto simp: Search_def split: option.splits search_outcome.splits)
  have worker: "Search lib (s\<lparr>bufs := m\<rparr>) search_request = Search lib s search_request"
    by (simp add: Search_def)
  have completion: "CreateDone r (x\<lparr>bufs := m\<rparr>) = map_sum id (\<lambda>s. s\<lparr>bufs := m\<rparr>) (CreateDone r x)"
    for r :: "'a CreateArgs" and x
    by (simp add: CreateDone_def New_def Unwrap_def Call_def)
  have pipeline: "createHdtDocument lib ToString [Str path, cb] (\<lambda>s. (later s)\<lparr>bufs := m\<rparr>) s =
     map_sum id (\<lambda>s. s\<lparr>bufs := m\<rparr>) (createHdtDocument lib ToString [Str path, cb] later s)"
    by (simp add: createHdtDocument_def CreateAsync_Str completion)
  show ?thesis
    using CreateAsync_Str [of ToString path cb s] SearchAsync_Str [of a s ToString sub pre ob cb]
      keep_filename keep_pattern worker pipeline
    by blast
qed

theorem inputs_snapshotted_witness:
  "CreateAsync (\<lambda>v. None) [Str ''test.hdt'', Function 1] (vm0 :: nat vm) =
     Inr (Undefined,
          \<lparr>filename = ''test.hdt'', CreateArgs.hdt = None, error = '''', CreateArgs.callback = Function 1\<rparr>,
          vm0)
 \<and> SearchAsync (\<lambda>v. None) (Wrapper 0) [Str ''a'', Str ''b'', Str '''', Function 2]
      \<lparr>docs = [\<lparr>HdtDocument.hdt = Some (7::nat)\<rparr>], bufs = [], deleted = [], calls = []\<rparr> =
     Inr (Undefined,
          \<lparr>hdtDocument = 0, subject = ''a'', predicate = ''b'', object = '''',
           SearchArgs.callback = Function 2, triples = []\<rparr>,
          \<lparr>docs = [\<lparr>HdtDocument.hdt = Some 7\<rparr>], bufs = [], deleted = [], calls = []\<rparr>)
 \<and> Search example_library
      \<lparr>docs = [\<lparr>HdtDocument.hdt = Some 7\<rparr>], bufs = [''overwritten''], deleted = [], calls = []\<rparr>
      \<lparr>hdtDocument = 0, subject = ''a'', predicate = ''b'', object = ''c'',
       SearchArgs.callback = Function 2, triples = []\<rparr>
   = Inr \<lparr>hdtDocument = 0, subject = ''a'', predicate = ''b'', object = ''c'',
          SearchArgs.callback = Function 2,
          triples = [\<lparr>getSubject = ''a'', getPredicate = ''b'', getObject = ''c''\<rparr>]\<rparr>"
proof -
  let ?s = "\<lparr>docs = [\<lparr>HdtDocument.hdt = Some (7::nat)\<rparr>], bufs = [], deleted = [], calls = []\<rparr>"
  let ?r = "\<lparr>hdtDocument = 0, subject = ''a'', predicate = ''b'', object = ''c'',
             SearchArgs.callback = Function 2, triples = []\<rparr>"
  have plain: "Search example_library ?s ?r =
      Inr (?r\<lparr>triples := [\<lparr>getSubject = ''a'', getPredicate = ''b'', getObject = ''c''\<rparr>]\<rparr>)"
    by (simp add: Search_def example_library_def)
  from inputs_snapshotted [of "\<lambda>v. None" "''test.hdt''" "Function 1" "vm0 :: nat vm"]
  have open_request: "CreateAsync (\<lambda>v. None) [Str ''test.hdt'', Function 1] (vm0 :: nat vm) =
     Inr (Undefined,
          \<lparr>filename = ''test.hdt'', CreateArgs.hdt = None, error = '''', CreateArgs.callback = Function 1\<rparr>,
          vm0)"
    by (simp add: c_string_def)
  from inputs_snapshotted [of "\<lambda>v. None" "''a''" "Function 2" ?s 0 "''a''" "''b''" "''''"
      example_library _ ?r _ "[''overwritten'']"]
  have search_request: "SearchAsync (\<lambda>v. None) (Wrapper 0) [Str ''a'', Str ''b'', Str '''', Function 2] ?s =
     Inr (Undefined,
          \<lparr>hdtDocument = 0, subject = ''a'', predicate = ''b'', object = '''',
           SearchArgs.callback = Function 2, triples = []\<rparr>, ?s)"
    and overwritten: "Search example_library (?s\<lparr>bufs := [''overwritten'']\<rparr>) ?r = Search example_library ?s ?r"
    by (simp_all add: c_string_def)
  show ?thesis using open_request search_request overwritten plain by simp
qed

subsection \<open>Where a document's store comes from\<close>

text \<open>
  Claim C10: a newly constructed document holds no store, and \<^verbatim>\<open>closed\<close> reads true on
  it. In every state the process reaches from its start, whatever JavaScript calls and in
  whatever order the tasks run and complete, each document either holds no store or holds a
  store that \<^verbatim>\<open>mapIndexedHDT\<close> returned. A step after which a document holds a store it
  did not hold before is the completion of an open, the document is the one that completion
  made, and the store is the one in its request.
\<close>

theorem store_attached_only_by_open_completion:
  "HdtDocument.hdt (HdtDocument_ctor :: 'h HdtDocument) = None
 \<and> (New k (s0 :: 'h vm) = Inr (v, s1) \<longrightarrow> ClosedGetter v s1 = Inr (Boolean True, s1))
 \<and> (run lib ToString evs (vm0, []) = Inr (s, q) \<longrightarrow>
      (\<forall>d \<in> set (docs s).
         HdtDocument.hdt d = None \<or> Returned (HdtDocument.hdt d) \<in> range (mapIndexedHDT lib)))
 \<and> (exec lib ToString ev (s2, q2) = Inr (s3, q3) \<and> a < length (docs s3)
      \<and> HdtDocument.hdt (docs s3 ! a) = Some h \<longrightarrow>
      (a < length (docs s2) \<and> HdtDocument.hdt (docs s2 ! a) = Some h)
    \<or> (\<exists>i r. ev = Done i \<and> i < length q2 \<and> q2 ! i = CreateTask True r
             \<and> CreateArgs.hdt r = Some h \<and> a = length (docs s2)))"
proof -
  have fresh: "HdtDocument.hdt (HdtDocument_ctor :: 'h HdtDocument) = None"
    by (simp add: HdtDocument_ctor_def)
  have new: "New k s0 = Inr (v, s1) \<longrightarrow> ClosedGetter v s1 = Inr (Boolean True, s1)"
    by (auto simp: New_def ClosedGetter_def Unwrap_def HdtDocument_ctor_def split: if_splits)
  have start: "attached_ok lib (vm0, [])"
    by (simp add: attached_ok_def vm0_def)
  have reach: "run lib ToString evs (vm0, []) = Inr (s, q) \<longrightarrow>
      (\<forall>d \<in> set (docs s).
         HdtDocument.hdt d = None \<or> Returned (HdtDocument.hdt d) \<in> range (mapIndexedHDT lib))"
  proof
    assume "run lib ToString evs (vm0, []) = Inr (s, q)"
    with start have "attached_ok lib (s, q)" by (rule run_attached_ok)
    then show "\<forall>d \<in> set (docs s).
         HdtDocument.hdt d = None \<or> Returned (HdtDocument.hdt d) \<in> range (mapIndexedHDT lib)"
      by (simp add: attached_ok_def from_open_def)
  qed
  have step: "exec lib ToString ev (s2, q2) = Inr (s3, q3) \<and> a < length (docs s3)
      \<and> HdtDocument.hdt (docs s3 ! a) = Some h \<longrightarrow>
      (a < length (docs s2) \<and> HdtDocument.hdt (docs s2 ! a) = Some h)
    \<or> (\<exists>i r. ev = Done i \<and> i < length q2 \<and> q2 ! i = CreateTask True r
             \<and> CreateArgs.hdt r = Some h \<and> a = length (docs s2))"
    using exec_attaches [of lib ToString ev s2 q2 s3 q3 a h] by blast
  from fresh new reach step show ?thesis by blast
qed

theorem store_attached_only_by_open_completion_witness:
  "New True (vm0 :: nat vm) = Inr (Wrapper 0, \<lparr>docs = [\<lparr>HdtDocument.hdt = None\<rparr>], bufs = [], deleted = [], calls = []\<rparr>)
 \<and> ClosedGetter (Wrapper 0) \<lparr>docs = [\<lparr>HdtDocument.hdt = (None :: nat option)\<rparr>], bufs = [], deleted = [], calls = []\<rparr>
     = Inr (Boolean True, \<lparr>docs = [\<lparr>HdtDocument.hdt = None\<rparr>], bufs = [], deleted = [], calls = []\<rparr>)
 \<and> run example_library (\<lambda>v. None)
      [JsCreateHdtDocument [Str ''test.hdt'', Function 1], JsNew True, Work 0, Done 0] (vm0, [])
     = Inr (\<lparr>docs = [\<lparr>HdtDocument.hdt = None\<rparr>, \<lparr>HdtDocument.hdt = Some 7\<rparr>], bufs = [], deleted = [],
             calls = [(Function 1, [Null, Wrapper 1])]\<rparr>, [])
 \<and> Returned (Some 7) \<in> range (mapIndexedHDT example_library)
 \<and> exec example_library (\<lambda>v. None) (Done 0)
      (\<lparr>docs = [\<lparr>HdtDocument.hdt = None\<rparr>], bufs = [], deleted = [], calls = []\<rparr>,
       [CreateTask True \<lparr>filename = ''test.hdt'', CreateArgs.hdt = Some 7, error = '''',
                         CreateArgs.callback = Function 1\<rparr>])
     = Inr (\<lparr>docs = [\<lparr>HdtDocument.hdt = None\<rparr>, \<lparr>HdtDocument.hdt = Some 7\<rparr>], bufs = [], deleted = [],
             calls = [(Function 1, [Null, Wrapper 1])]\<rparr>, [])"
proof -
  let ?fresh = "\<lparr>docs = [\<lparr>HdtDocument.hdt = (None :: nat option)\<rparr>], bufs = [], deleted = [], calls = []\<rparr>"
  let ?final = "\<lparr>docs = [\<lparr>HdtDocument.hdt = None\<rparr>, \<lparr>HdtDocument.hdt = Some (7::nat)\<rparr>], bufs = [],
                 deleted = [], calls = [(Function 1, [Null, Wrapper 1])]\<rparr>"
  let ?task = "CreateTask True \<lparr>filename = ''test.hdt'', CreateArgs.hdt = Some (7::nat), error = '''',
                                CreateArgs.callback = Function 1\<rparr>"
  let ?evs = "[JsCreateHdtDocument [Str ''test.hdt'', Function 1], JsNew True, Work 0, Done 0]"
  have new: "New True (vm0 :: nat vm) = Inr (Wrapper 0, ?fresh)"
    by (simp add: New_def vm0_def HdtDocument_ctor_def)
  have ran: "run example_library (\<lambda>v. None) ?evs (vm0, []) = Inr (?final, [])"
    by (simp add: eval_defs)
  have stepped: "exec example_library (\<lambda>v. None) (Done 0) (?fresh, [?task]) = Inr (?final, [])"
    by (simp add: eval_defs)
  from store_attached_only_by_open_completion
    [of True "vm0 :: nat vm" "Wrapper 0" ?fresh example_library "\<lambda>v. None" ?evs ?final "[]"
        "Done 0" ?fresh "[?task]" ?final "[]" 1 7]
    new ran stepped
  show ?thesis by simp
qed

end
